theory Spec2Isabelle
  imports Complex_Main
begin

section \<open>Python values and failures\<close>

text \<open>
  Floats are modelled as exact reals, Python ints as \<open>int\<close>.  Every exception the
  program can raise is a value of \<open>error\<close>; a computation returns \<open>error + 'a\<close>.

  \<open>NonFinite\<close> is not an exception.  A division of a numpy float by zero only warns and
  gives \<open>inf\<close> or \<open>nan\<close>, which no real number stands for; the model stops there with
  this value.  (A division of a Python float by zero raises \<open>ZeroDivisionError\<close>.)
  The last two names are the specification's; no line of the program raises them.
\<close>

datatype error =
    AssertionError
  | IndexError
  | ZeroDivisionError
  | ValueError
  | OverflowError
  | UnboundLocalError
  | NonFinite
  | InsufficientDataError
  | ValidationError

text \<open>\<open>int(x)\<close> on a float truncates toward zero.\<close>

definition py_int :: "real \<Rightarrow> int" where
  "py_int x = (if 0 \<le> x then \<lfloor>x\<rfloor> else \<lceil>x\<rceil>)"

text \<open>\<open>int(round(x))\<close> in Python 2: halves are rounded away from zero.\<close>

definition py_round :: "real \<Rightarrow> int" where
  "py_round x = (if 0 \<le> x then \<lfloor>x + 1 / 2\<rfloor> else \<lceil>x - 1 / 2\<rceil>)"

text \<open>\<open>xs[i]\<close>: a negative index counts from the end, anything else out of range raises.\<close>

definition py_get :: "'a list \<Rightarrow> int \<Rightarrow> error + 'a" where
  "py_get xs i =
     (if 0 \<le> i \<and> i < int (length xs) then Inr (xs ! nat i)
      else if i < 0 \<and> - int (length xs) \<le> i then Inr (xs ! nat (int (length xs) + i))
      else Inl IndexError)"

text \<open>\<open>xs[i:j]\<close>: both bounds are taken from the end when negative, then clipped.\<close>

definition py_clip :: "nat \<Rightarrow> int \<Rightarrow> nat" where
  "py_clip n i = (if i < 0 then nat (int n + i) else min n (nat i))"

definition py_slice :: "'a list \<Rightarrow> int \<Rightarrow> int \<Rightarrow> 'a list" where
  "py_slice xs i j = take (py_clip (length xs) j - py_clip (length xs) i) (drop (py_clip (length xs) i) xs)"

section \<open>power_of_two\<close>

text \<open>
  The loop \<open>while x < n and x < 2147483648: x *= 2\<close>.  \<open>x\<close> is a float that only ever
  holds a power of two up to \<open>2^31\<close>, which floats represent exactly.
\<close>

partial_function (option) power_of_two_while :: "int \<Rightarrow> int \<Rightarrow> int option" where
  "power_of_two_while x n =
     (if x < n \<and> x < 2147483648 then power_of_two_while (x * 2) n else Some x)"

definition power_of_two :: "int \<Rightarrow> bool option" where
  "power_of_two num =
     (let n = num in
      if n = 1 then Some True
      else map_option (\<lambda>x. n = x) (power_of_two_while 2 n))"

section \<open>geometric_rebinning\<close>

text \<open>
  The inner loop \<open>for k in range(prev_m, current_m)\<close>, which adds \<open>rms_power_avg[k]\<close> to
  \<open>bin_power\<close> and \<open>rms_err_power[k] ** 2\<close> to \<open>err_bin_power2\<close>.
\<close>

fun sum_bins :: "real list \<Rightarrow> real list \<Rightarrow> int list \<Rightarrow> real \<times> real \<Rightarrow> error + real \<times> real" where
  "sum_bins rms_power_avg rms_err_power [] (bin_power, err_bin_power2) =
     Inr (bin_power, err_bin_power2)"
| "sum_bins rms_power_avg rms_err_power (k # ks) (bin_power, err_bin_power2) =
     (case py_get rms_power_avg k of
        Inl e \<Rightarrow> Inl e
      | Inr p \<Rightarrow>
          (case py_get rms_err_power k of
             Inl e \<Rightarrow> Inl e
           | Inr q \<Rightarrow> sum_bins rms_power_avg rms_err_power ks (bin_power + p, err_bin_power2 + q ^ 2)))"

text \<open>
  One pass through the body of the while loop, up to the three appends: the triple
  \<open>(bin_freq, bin_power, error)\<close> of the group \<open>range(prev_m, current_m)\<close>.  When
  \<open>bin_range\<close> is 0 the range is empty and \<open>bin_power\<close> is still the Python float
  \<open>0.0\<close>, so \<open>bin_power /= float(bin_range)\<close> raises.
\<close>

definition rebin_bin :: "real list \<Rightarrow> real list \<Rightarrow> real list \<Rightarrow> int \<Rightarrow> int \<Rightarrow> error + real \<times> real \<times> real" where
  "rebin_bin rms_power_avg rms_err_power freq prev_m current_m =
     (case sum_bins rms_power_avg rms_err_power [prev_m..current_m - 1] (0, 0) of
        Inl e \<Rightarrow> Inl e
      | Inr (bin_power, err_bin_power2) \<Rightarrow>
          (let bin_range = \<bar>current_m - prev_m\<bar> in
           if bin_range = 0 then Inl ZeroDivisionError
           else
             (case py_get freq current_m of
                Inl e \<Rightarrow> Inl e
              | Inr freq_current \<Rightarrow>
                  (case py_get freq prev_m of
                     Inl e \<Rightarrow> Inl e
                   | Inr freq_prev \<Rightarrow>
                       (if bin_range = 1 then
                          (case py_get rms_power_avg prev_m of
                             Inl e \<Rightarrow> Inl e
                           | Inr p \<Rightarrow> Inr (freq_prev, p, sqrt err_bin_power2 / real_of_int bin_range))
                        else
                          Inr ((freq_current - freq_prev) / real_of_int bin_range + freq_prev,
                               bin_power / real_of_int bin_range,
                               sqrt err_bin_power2 / real_of_int bin_range))))))"

text \<open>
  The while loop.  The state is \<open>real_index\<close>, \<open>current_m\<close>, \<open>prev_m\<close> and the three
  output lists; \<open>int_index\<close> is recomputed from \<open>real_index\<close> in every pass.  The loop
  does not return for every \<open>rebin_const\<close>, so its result is an option.
\<close>

partial_function (option) rebin_while ::
  "real list \<Rightarrow> real list \<Rightarrow> real list \<Rightarrow> real \<Rightarrow> int \<Rightarrow> real \<Rightarrow> int \<Rightarrow> int
     \<Rightarrow> real list \<times> real list \<times> real list
     \<Rightarrow> (error + real list \<times> real list \<times> real list) option" where
  "rebin_while rms_power_avg rms_err_power freq rebin_const length_of_list
       real_index current_m prev_m out =
     (if current_m < length_of_list then
        (case rebin_bin rms_power_avg rms_err_power freq prev_m current_m of
           Inl e \<Rightarrow> Some (Inl e)
         | Inr (bin_freq, bin_power, bin_err) \<Rightarrow>
             (case out of (rebinned_freq, rebinned_rms_power, err_rebinned_power) \<Rightarrow>
                rebin_while rms_power_avg rms_err_power freq rebin_const length_of_list
                  (real_index * rebin_const)
                  (current_m + py_round (real_index * rebin_const))
                  current_m
                  (rebinned_freq @ [bin_freq], rebinned_rms_power @ [bin_power],
                   err_rebinned_power @ [bin_err])))
      else Some (Inr out))"

definition geometric_rebinning ::
  "real list \<Rightarrow> real list \<Rightarrow> real list \<Rightarrow> real \<Rightarrow> int
     \<Rightarrow> (error + real list \<times> real list \<times> real list) option" where
  "geometric_rebinning rms_power_avg rms_err_power freq rebin_const length_of_list =
     rebin_while rms_power_avg rms_err_power freq rebin_const length_of_list 1 1 0 ([], [], [])"

text \<open>
  The index bookkeeping of the same loop on its own: the groups \<open>(prev_m, current_m)\<close>
  in the order the loop visits them.
\<close>

partial_function (option) rebin_groups_while ::
  "real \<Rightarrow> int \<Rightarrow> real \<Rightarrow> int \<Rightarrow> int \<Rightarrow> (int \<times> int) list \<Rightarrow> (int \<times> int) list option" where
  "rebin_groups_while rebin_const length_of_list real_index current_m prev_m groups =
     (if current_m < length_of_list then
        rebin_groups_while rebin_const length_of_list
          (real_index * rebin_const)
          (current_m + py_round (real_index * rebin_const))
          current_m
          (groups @ [(prev_m, current_m)])
      else Some groups)"

definition rebin_groups :: "real \<Rightarrow> int \<Rightarrow> (int \<times> int) list option" where
  "rebin_groups rebin_const length_of_list =
     rebin_groups_while rebin_const length_of_list 1 1 0 []"

text \<open>The triples of a list of groups, appended in order, stopping at the first failure.\<close>

fun emit_all ::
  "real list \<Rightarrow> real list \<Rightarrow> real list \<Rightarrow> (int \<times> int) list
     \<Rightarrow> real list \<times> real list \<times> real list \<Rightarrow> error + real list \<times> real list \<times> real list" where
  "emit_all rms_power_avg rms_err_power freq [] out = Inr out"
| "emit_all rms_power_avg rms_err_power freq ((prev_m, current_m) # gs) out =
     (case rebin_bin rms_power_avg rms_err_power freq prev_m current_m of
        Inl e \<Rightarrow> Inl e
      | Inr (bin_freq, bin_power, bin_err) \<Rightarrow>
          (case out of (rebinned_freq, rebinned_rms_power, err_rebinned_power) \<Rightarrow>
             emit_all rms_power_avg rms_err_power freq gs
               (rebinned_freq @ [bin_freq], rebinned_rms_power @ [bin_power],
                err_rebinned_power @ [bin_err])))"

text \<open>Consecutive groups: each one starts where the one before it ended.\<close>

fun adjacent :: "(int \<times> int) list \<Rightarrow> bool" where
  "adjacent [] = True"
| "adjacent [g] = True"
| "adjacent (g # h # gs) = (snd g = fst h \<and> adjacent (h # gs))"


section \<open>main\<close>

text \<open>
  The three assertions at the top of \<open>main\<close>, in their order.  Each failing
  \<open>assert\<close> raises \<open>AssertionError\<close>.
\<close>

definition idiot_checks :: "int \<Rightarrow> real \<Rightarrow> (error + unit) option" where
  "idiot_checks num_seconds rebin_const =
     (if \<not> num_seconds > 0 then Some (Inl AssertionError)
      else if \<not> rebin_const \<ge> 1 then Some (Inl AssertionError)
      else
        (case power_of_two num_seconds of
           None \<Rightarrow> None
         | Some b \<Rightarrow> if b then Some (Inr ()) else Some (Inl AssertionError)))"

text \<open>
  The data of the FITS table: one \<open>(time, rate)\<close> pair per row.
  \<open>dt = fits_data[1].field(0) - fits_data[0].field(0)\<close>.
\<close>

definition time_step :: "(real \<times> real) list \<Rightarrow> error + real" where
  "time_step fits_data =
     (case py_get fits_data 1 of
        Inl e \<Rightarrow> Inl e
      | Inr row1 \<Rightarrow>
          (case py_get fits_data 0 of
             Inl e \<Rightarrow> Inl e
           | Inr row0 \<Rightarrow> Inr (fst row1 - fst row0)))"

text \<open>
  \<open>n_bins = num_seconds * int(1.0 / dt)\<close>.  \<open>dt\<close> is a numpy float: for \<open>dt = 0\<close> the
  quotient is \<open>inf\<close>, and \<open>int(inf)\<close> raises \<open>OverflowError\<close>.
\<close>

definition bins_per_segment :: "int \<Rightarrow> real \<Rightarrow> error + int" where
  "bins_per_segment num_seconds dt =
     (if dt = 0 then Inl OverflowError else Inr (num_seconds * py_int (1 / dt)))"

text \<open>
  \<open>scipy.fftpack.fft\<close> is library code; it is modelled by the discrete Fourier transform
  it computes, \<open>X[k] = \<Sum>n. x[n] * exp(-2 \<pi> i k n / N)\<close>.
\<close>

definition fft :: "real list \<Rightarrow> complex list" where
  "fft x =
     map (\<lambda>k. sum_list (map (\<lambda>n. complex_of_real (x ! n)
                                   * cis (- (2 * pi * real k * real n / real (length x))))
                          [0..<length x]))
       [0..<length x]"

text \<open>
  The work on one segment: mean rate, mean subtraction, transform, power.  On an empty
  segment \<open>np.mean\<close> only warns, and \<open>fftpack.fft\<close> then raises \<open>ValueError\<close>.
\<close>

definition segment_power :: "real list \<Rightarrow> error + real \<times> real list" where
  "segment_power rate =
     (if rate = [] then Inl ValueError
      else
        (let mean_rate_segment = sum_list rate / real (length rate);
             rate_sub_mean = map (\<lambda>x. x - mean_rate_segment) rate;
             fft_data = fft rate_sub_mean;
             power_segment = map (\<lambda>z. (cmod z) ^ 2) fft_data
         in Inr (mean_rate_segment, power_segment)))"

text \<open>
  The loop \<open>while j < len(fits_data.field(1))\<close> over the rate column.  Its result is
  \<open>power_avg\<close>, \<open>mean_rate_whole\<close>, \<open>num_segments\<close> and the last \<open>rate\<close>
  (\<open>None\<close> while the name is unbound).
\<close>

partial_function (option) segment_while ::
  "real list \<Rightarrow> int \<Rightarrow> int \<Rightarrow> int \<Rightarrow> int \<Rightarrow> real list \<Rightarrow> real \<Rightarrow> real list option
     \<Rightarrow> (error + real list \<times> real \<times> int \<times> real list option) option" where
  "segment_while rates n_bins i j num_segments power_avg mean_rate_whole rate =
     (if j < int (length rates) then
        (case segment_power (py_slice rates i j) of
           Inl e \<Rightarrow> Some (Inl e)
         | Inr (mean_rate_segment, power_segment) \<Rightarrow>
             segment_while rates n_bins j (j + n_bins) (num_segments + 1)
               (map (\<lambda>(a, b). a + b) (zip power_segment power_avg))
               (mean_rate_whole + mean_rate_segment)
               (Some (py_slice rates i j)))
      else Some (Inr (power_avg, mean_rate_whole, num_segments, rate)))"

text \<open>
  \<open>power_avg = [x / float(num_segments) for x in power_avg]\<close> and
  \<open>mean_rate_whole /= float(num_segments)\<close>.  With \<open>num_segments = 0\<close> no pass of the
  loop has run: the entries of \<open>power_avg\<close> are still the Python floats \<open>0.0\<close> and
  \<open>mean_rate_whole\<close> is the int \<open>0\<close>, so the first division raises when \<open>power_avg\<close>
  has an entry, and the second one raises otherwise.
\<close>

definition average :: "real list \<Rightarrow> real \<Rightarrow> int \<Rightarrow> error + real list \<times> real" where
  "average power_avg mean_rate_whole num_segments =
     (if num_segments = 0 then Inl ZeroDivisionError
      else Inr (map (\<lambda>x. x / real_of_int num_segments) power_avg,
                mean_rate_whole / real_of_int num_segments))"

text \<open>
  \<open>numpy.fft.fftfreq(n)\<close> is library code: the integers \<open>0 .. (n-1)//2\<close> followed by
  \<open>-(n//2) .. -1\<close>, each multiplied by \<open>1.0 / n\<close>.
\<close>

definition fftfreq :: "nat \<Rightarrow> error + real list" where
  "fftfreq n =
     (if n = 0 then Inl ZeroDivisionError
      else Inr (map (\<lambda>k. real_of_int k * (1 / real n))
                  ([0..int ((n - 1) div 2)] @ [- int (n div 2)..- 1])))"

text \<open>\<open>max(xs)\<close> and \<open>xs.index(v)\<close>; both raise \<open>ValueError\<close> when there is no answer.\<close>

definition py_max :: "real list \<Rightarrow> error + real" where
  "py_max xs = (case xs of [] \<Rightarrow> Inl ValueError | x # ys \<Rightarrow> Inr (fold max ys x))"

fun py_list_index :: "real list \<Rightarrow> real \<Rightarrow> error + nat" where
  "py_list_index [] v = Inl ValueError"
| "py_list_index (x # xs) v =
     (if x = v then Inr 0
      else (case py_list_index xs v of Inl e \<Rightarrow> Inl e | Inr n \<Rightarrow> Inr (Suc n)))"

text \<open>
  \<open>max_index = freq.index(max(freq))\<close>, then \<open>freq[0:max_index+1]\<close> and
  \<open>power_avg[0:max_index+1]\<close>.
\<close>

definition positive_freqs :: "real list \<Rightarrow> real list \<Rightarrow> error + real list \<times> real list" where
  "positive_freqs freq power_avg =
     (case py_max freq of
        Inl e \<Rightarrow> Inl e
      | Inr m \<Rightarrow>
          (case py_list_index freq m of
             Inl e \<Rightarrow> Inl e
           | Inr max_index \<Rightarrow> Inr (take (max_index + 1) freq, take (max_index + 1) power_avg)))"

text \<open>
  \<open>err_power = [x / math.sqrt(float(num_segments) * len(power_avg)) for x in power_avg]\<close>.
  \<open>math.sqrt\<close> raises \<open>ValueError\<close> on a negative number; the entries \<open>x\<close> are numpy
  floats.
\<close>

definition error_on_mean :: "real list \<Rightarrow> int \<Rightarrow> error + real list" where
  "error_on_mean power_avg num_segments =
     (let v = real_of_int num_segments * real (length power_avg) in
      if power_avg = [] then Inr []
      else if v < 0 then Inl ValueError
      else if sqrt v = 0 then Inl NonFinite
      else Inr (map (\<lambda>x. x / sqrt v) power_avg))"

text \<open>
  The three normalisations.  Each is a list comprehension whose expression divides by
  \<open>dt\<close>, by \<open>(1.0/dt) * num_seconds\<close> and by \<open>mean_rate_whole\<close> (or its square).  All
  of these are numpy floats, so when one of them is zero the first entry is not finite.
\<close>

definition leahy_norm :: "real list \<Rightarrow> real \<Rightarrow> int \<Rightarrow> real \<Rightarrow> error + real list" where
  "leahy_norm power_avg dt num_seconds mean_rate_whole =
     (if power_avg = [] then Inr []
      else if dt = 0 \<or> (1 / dt) * real_of_int num_seconds = 0 \<or> mean_rate_whole = 0
        then Inl NonFinite
      else Inr (map (\<lambda>x. 2 * x * dt / ((1 / dt) * real_of_int num_seconds) / mean_rate_whole)
                  power_avg))"

definition rms_norm :: "real list \<Rightarrow> real \<Rightarrow> int \<Rightarrow> real \<Rightarrow> error + real list" where
  "rms_norm power_avg dt num_seconds mean_rate_whole =
     (if power_avg = [] then Inr []
      else if dt = 0 \<or> (1 / dt) * real_of_int num_seconds = 0 \<or> mean_rate_whole = 0
        then Inl NonFinite
      else Inr (map (\<lambda>x. 2 * x * dt / ((1 / dt) * real_of_int num_seconds) / mean_rate_whole ^ 2
                          - 2 / mean_rate_whole)
                  power_avg))"

definition rms_err_norm :: "real list \<Rightarrow> real \<Rightarrow> int \<Rightarrow> real \<Rightarrow> error + real list" where
  "rms_err_norm err_power dt num_seconds mean_rate_whole =
     (if err_power = [] then Inr []
      else if dt = 0 \<or> (1 / dt) * real_of_int num_seconds = 0 \<or> mean_rate_whole = 0
        then Inl NonFinite
      else Inr (map (\<lambda>x. 2 * x * dt / ((1 / dt) * real_of_int num_seconds) / mean_rate_whole ^ 2)
                  err_power))"

text \<open>What \<open>main\<close> hands to \<open>output\<close>, together with the Leahy spectrum it computes.\<close>

record spectra =
  out_dt :: real
  out_n_bins :: int
  out_num_segments :: int
  out_mean_rate_whole :: real
  out_freq :: "real list"
  out_leahy_power_avg :: "real list"
  out_rms_power_avg :: "real list"
  out_rms_err_power :: "real list"
  out_rebinned_freq :: "real list"
  out_rebinned_rms_power :: "real list"
  out_err_rebinned_power :: "real list"

text \<open>
  Everything after the segment loop: averaging, the frequency axis, the cut to the
  retained bins, the error estimate, the normalisations and the rebinning.
\<close>

definition after_loop ::
  "int \<Rightarrow> real \<Rightarrow> real \<Rightarrow> int \<Rightarrow> real list \<times> real \<times> int \<times> real list option
     \<Rightarrow> (error + spectra) option" where
  "after_loop num_seconds rebin_const dt n_bins st =
     (case st of (power_sum, mean_rate_sum, num_segments, rate) \<Rightarrow>
      (case average power_sum mean_rate_sum num_segments of
         Inl e \<Rightarrow> Some (Inl e)
       | Inr (power_avg, mean_rate_whole) \<Rightarrow>
      (case rate of
         None \<Rightarrow> Some (Inl UnboundLocalError)
       | Some rate \<Rightarrow>
      (case fftfreq (length rate) of
         Inl e \<Rightarrow> Some (Inl e)
       | Inr sample_freq \<Rightarrow>
      (case positive_freqs (map (\<lambda>x. x * real_of_int (py_int (1 / dt))) sample_freq) power_avg of
         Inl e \<Rightarrow> Some (Inl e)
       | Inr (freq, power_avg) \<Rightarrow>
      (case error_on_mean power_avg num_segments of
         Inl e \<Rightarrow> Some (Inl e)
       | Inr err_power \<Rightarrow>
      (case leahy_norm power_avg dt num_seconds mean_rate_whole of
         Inl e \<Rightarrow> Some (Inl e)
       | Inr leahy_power_avg \<Rightarrow>
      (case rms_norm power_avg dt num_seconds mean_rate_whole of
         Inl e \<Rightarrow> Some (Inl e)
       | Inr rms_power_avg \<Rightarrow>
      (case rms_err_norm err_power dt num_seconds mean_rate_whole of
         Inl e \<Rightarrow> Some (Inl e)
       | Inr rms_err_power \<Rightarrow>
      (case geometric_rebinning rms_power_avg rms_err_power freq rebin_const
              (int (length power_avg)) of
         None \<Rightarrow> None
       | Some (Inl e) \<Rightarrow> Some (Inl e)
       | Some (Inr (rebinned_freq, rebinned_rms_power, err_rebinned_power)) \<Rightarrow>
           Some (Inr \<lparr>out_dt = dt, out_n_bins = n_bins, out_num_segments = num_segments,
                      out_mean_rate_whole = mean_rate_whole, out_freq = freq,
                      out_leahy_power_avg = leahy_power_avg,
                      out_rms_power_avg = rms_power_avg, out_rms_err_power = rms_err_power,
                      out_rebinned_freq = rebinned_freq,
                      out_rebinned_rms_power = rebinned_rms_power,
                      out_err_rebinned_power = err_rebinned_power\<rparr>)))))))))))"

definition main :: "(real \<times> real) list \<Rightarrow> int \<Rightarrow> real \<Rightarrow> (error + spectra) option" where
  "main fits_data num_seconds rebin_const =
     (case idiot_checks num_seconds rebin_const of
        None \<Rightarrow> None
      | Some (Inl e) \<Rightarrow> Some (Inl e)
      | Some (Inr u) \<Rightarrow>
      (case time_step fits_data of
         Inl e \<Rightarrow> Some (Inl e)
       | Inr dt \<Rightarrow>
      (case bins_per_segment num_seconds dt of
         Inl e \<Rightarrow> Some (Inl e)
       | Inr n_bins \<Rightarrow>
      (case segment_while (map snd fits_data) n_bins 0 n_bins 0 (replicate (nat n_bins) 0) 0 None of
         None \<Rightarrow> None
       | Some (Inl e) \<Rightarrow> Some (Inl e)
       | Some (Inr st) \<Rightarrow> after_loop num_seconds rebin_const dt n_bins st))))"


section \<open>Properties of the rebinning loop\<close>

lemma adjacent_Cons: "(gs \<noteq> [] \<longrightarrow> fst (hd gs) = snd g) \<Longrightarrow> adjacent gs \<Longrightarrow> adjacent (g # gs)"
  by (cases gs) auto

lemma rebin_while_stop:
  "\<not> cur < L \<Longrightarrow> rebin_while rms err freq c L ri cur prev out = Some (Inr out)"
  by (subst rebin_while.simps) simp

lemma rebin_while_step:
  "cur < L \<Longrightarrow> rebin_while rms err freq c L ri cur prev out =
     (case rebin_bin rms err freq prev cur of
           Inl e \<Rightarrow> Some (Inl e)
         | Inr (bin_freq, bin_power, bin_err) \<Rightarrow>
             (case out of (rebinned_freq, rebinned_rms_power, err_rebinned_power) \<Rightarrow>
                rebin_while rms err freq c L (ri * c) (cur + py_round (ri * c)) cur
                  (rebinned_freq @ [bin_freq], rebinned_rms_power @ [bin_power],
                   err_rebinned_power @ [bin_err])))"
  by (subst rebin_while.simps) simp

lemma rebin_groups_while_link:
  assumes "rebin_groups_while c L ri cur prev gs0 = Some gs"
  shows "\<exists>gs'. gs = gs0 @ gs' \<and> (gs' \<noteq> [] \<longrightarrow> hd gs' = (prev, cur)) \<and> adjacent gs'
           \<and> (\<forall>out. rebin_while rms err freq c L ri cur prev out = Some (emit_all rms err freq gs' out))"
proof (rule rebin_groups_while.raw_induct
    [where P = "\<lambda>c L ri cur prev gs0 gs. \<exists>gs'. gs = gs0 @ gs' \<and> (gs' \<noteq> [] \<longrightarrow> hd gs' = (prev, cur)) \<and> adjacent gs'
           \<and> (\<forall>out. rebin_while rms err freq c L ri cur prev out = Some (emit_all rms err freq gs' out))",
     OF _ assms], goal_cases)
  case (1 f c L ri cur prev gs0 gs)
  show ?case
  proof (cases "cur < L")
    case False
    with 1(2) have "gs = gs0" by simp
    moreover have "\<forall>out. rebin_while rms err freq c L ri cur prev out = Some (emit_all rms err freq [] out)"
      using False by (simp add: rebin_while_stop)
    ultimately show ?thesis by simp
  next
    case True
    with 1(2) have "f c L (ri * c) (cur + py_round (ri * c)) cur (gs0 @ [(prev, cur)]) = Some gs"
      by simp
    from 1(1)[OF this] obtain gs' where g: "gs = (gs0 @ [(prev, cur)]) @ gs'"
      and h: "gs' \<noteq> [] \<longrightarrow> hd gs' = (cur, cur + py_round (ri * c))"
      and a: "adjacent gs'"
      and w: "\<And>out. rebin_while rms err freq c L (ri * c) (cur + py_round (ri * c)) cur out
                 = Some (emit_all rms err freq gs' out)"
      by blast
    have "adjacent ((prev, cur) # gs')"
      using h a by (intro adjacent_Cons) auto
    moreover have "rebin_while rms err freq c L ri cur prev out
                 = Some (emit_all rms err freq ((prev, cur) # gs') out)" for out
      by (simp add: rebin_while_step[OF True] w split: sum.splits prod.splits)
    ultimately show ?thesis using g by (intro exI[of _ "(prev, cur) # gs'"]) simp
  qed
qed

lemma py_round_ge_1: "1 \<le> x \<Longrightarrow> 1 \<le> py_round x"
  unfolding py_round_def by (simp add: le_floor_iff)

lemma rebin_groups_while_stop:
  "\<not> cur < L \<Longrightarrow> rebin_groups_while c L ri cur prev gs = Some gs"
  by (subst rebin_groups_while.simps) simp

lemma rebin_groups_while_step:
  "cur < L \<Longrightarrow> rebin_groups_while c L ri cur prev gs =
     rebin_groups_while c L (ri * c) (cur + py_round (ri * c)) cur (gs @ [(prev, cur)])"
  by (subst rebin_groups_while.simps) simp

lemma rebin_groups_while_terminates:
  assumes "1 \<le> c" "1 \<le> ri" "prev < cur"
  shows "\<exists>gs'. rebin_groups_while c L ri cur prev gs0 = Some (gs0 @ gs')
           \<and> (\<forall>g \<in> set gs'. prev \<le> fst g \<and> fst g < snd g \<and> snd g < L)
           \<and> length gs' \<le> nat (L - cur)"
  using assms
proof (induction "nat (L - cur)" arbitrary: ri cur prev gs0 rule: less_induct)
  case less
  show ?case
  proof (cases "cur < L")
    case False
    then have "rebin_groups_while c L ri cur prev gs0 = Some (gs0 @ [])"
      by (simp add: rebin_groups_while_stop)
    then show ?thesis by (intro exI[of _ "[]"]) simp
  next
    case True
    let ?ri = "ri * c" 
    let ?cur = "cur + py_round ?ri"
    have ri: "1 \<le> ?ri" using less.prems by (simp add: mult_ge1_I)
    then have step: "1 \<le> py_round ?ri" by (rule py_round_ge_1)
    then have m: "nat (L - ?cur) < nat (L - cur)" using True by linarith
    have "cur < ?cur" using step by linarith
    from less.hyps[OF m \<open>1 \<le> c\<close> ri this, of "gs0 @ [(prev, cur)]"]
    obtain gs' where r: "rebin_groups_while c L ?ri ?cur cur (gs0 @ [(prev, cur)]) = Some ((gs0 @ [(prev, cur)]) @ gs')"
      and p: "\<forall>g \<in> set gs'. cur \<le> fst g \<and> fst g < snd g \<and> snd g < L"
      and l: "length gs' \<le> nat (L - ?cur)"
      by blast
    have "rebin_groups_while c L ri cur prev gs0 = Some (gs0 @ ((prev, cur) # gs'))"
      using r by (simp add: rebin_groups_while_step[OF True])
    moreover have "\<forall>g \<in> set ((prev, cur) # gs'). prev \<le> fst g \<and> fst g < snd g \<and> snd g < L"
      using p True less.prems(3) by auto
    moreover have "length ((prev, cur) # gs') \<le> nat (L - cur)"
    proof -
      have "length gs' < nat (L - cur)" using l m by linarith
      then show ?thesis by simp
    qed
    ultimately show ?thesis by blast
  qed
qed

lemma py_get_in_range:
  "0 \<le> i \<Longrightarrow> i < int (length xs) \<Longrightarrow> py_get xs i = Inr (xs ! nat i)"
  by (simp add: py_get_def)

lemma sum_bins_in_range:
  assumes "\<forall>k \<in> set ks. 0 \<le> k \<and> k < int (length rms) \<and> k < int (length err)"
  shows "sum_bins rms err ks (bp, e2) =
           Inr (bp + sum_list (map (\<lambda>k. rms ! nat k) ks), e2 + sum_list (map (\<lambda>k. (err ! nat k) ^ 2) ks))"
  using assms
  by (induction ks arbitrary: bp e2) (simp_all add: py_get_in_range add.assoc)

lemma rebin_bin_in_range:
  assumes "0 \<le> p" "p < m" "m < int (length freq)" "m \<le> int (length rms)" "m \<le> int (length err)"
  shows "\<exists>t. rebin_bin rms err freq p m = Inr t"
proof -
  have "\<forall>k \<in> set [p..m - 1]. 0 \<le> k \<and> k < int (length rms) \<and> k < int (length err)"
    using assms by auto
  then show ?thesis
    using assms by (simp add: rebin_bin_def sum_bins_in_range py_get_in_range Let_def)
qed

lemma emit_all_length:
  "emit_all rms err freq gs (fs, ps, es) = Inr (fs', ps', es') \<Longrightarrow>
     length fs' = length fs + length gs \<and> length ps' = length ps + length gs
       \<and> length es' = length es + length gs"
  by (induction gs arbitrary: fs ps es) (auto split: sum.splits prod.splits)

lemma emit_all_in_range:
  assumes "\<forall>g \<in> set gs. 0 \<le> fst g \<and> fst g < snd g \<and> snd g < int (length freq)
              \<and> snd g \<le> int (length rms) \<and> snd g \<le> int (length err)"
  shows "\<exists>r. emit_all rms err freq gs out = Inr r"
  using assms
proof (induction gs arbitrary: out)
  case Nil
  then show ?case by (simp del: split_paired_Ex)
next
  case (Cons g gs)
  obtain p m where g: "g = (p, m)" by (cases g)
  with Cons.prems obtain t where "rebin_bin rms err freq p m = Inr t"
    using rebin_bin_in_range[of p m freq rms err] by auto
  then show ?case using Cons g by (auto split: prod.splits simp del: split_paired_Ex)
qed

lemma rebin_groups_while_below:
  assumes "rebin_groups_while c L ri cur prev gs0 = Some gs"
  shows "\<exists>gs'. gs = gs0 @ gs' \<and> (\<forall>g \<in> set gs'. snd g < L) \<and> (cur < L \<longrightarrow> gs' \<noteq> [])"
proof (rule rebin_groups_while.raw_induct
    [where P = "\<lambda>c L ri cur prev gs0 gs. \<exists>gs'. gs = gs0 @ gs' \<and> (\<forall>g \<in> set gs'. snd g < L) \<and> (cur < L \<longrightarrow> gs' \<noteq> [])",
     OF _ assms], goal_cases)
  case (1 f c L ri cur prev gs0 gs)
  show ?case
  proof (cases "cur < L")
    case False
    with 1(2) show ?thesis by simp
  next
    case True
    with 1(2) have "f c L (ri * c) (cur + py_round (ri * c)) cur (gs0 @ [(prev, cur)]) = Some gs"
      by simp
    from 1(1)[OF this] obtain gs' where "gs = (gs0 @ [(prev, cur)]) @ gs'" "\<forall>g \<in> set gs'. snd g < L"
      by blast
    then show ?thesis using True by (intro exI[of _ "(prev, cur) # gs'"]) simp
  qed
qed

lemma rebin_bin_unit:
  assumes "0 \<le> p" "p + 1 < int (length freq)" "p + 1 \<le> int (length rms)" "p + 1 \<le> int (length err)"
  shows "rebin_bin rms err freq p (p + 1) = Inr (freq ! nat p, rms ! nat p, \<bar>err ! nat p\<bar>)"
proof -
  have "sum_bins rms err [p] (0, 0) = Inr (rms ! nat p, (err ! nat p) ^ 2)"
    using assms by (simp add: py_get_in_range)
  then show ?thesis
    using assms by (simp add: rebin_bin_def py_get_in_range)
qed

lemma emit_all_unit_groups:
  assumes "adjacent gs" "gs \<noteq> [] \<longrightarrow> fst (hd gs) = a" "0 \<le> a"
    and "\<forall>g \<in> set gs. snd g - fst g = 1 \<and> snd g < int (length freq)
            \<and> snd g \<le> int (length rms) \<and> snd g \<le> int (length err)"
  shows "emit_all rms err freq gs (fs, ps, es) =
           Inr (fs @ map (\<lambda>k. freq ! (nat a + k)) [0..<length gs],
                ps @ map (\<lambda>k. rms ! (nat a + k)) [0..<length gs],
                es @ map (\<lambda>k. \<bar>err ! (nat a + k)\<bar>) [0..<length gs])"
  using assms
proof (induction gs arbitrary: a fs ps es)
  case Nil
  then show ?case by simp
next
  case (Cons g gs)
  from Cons.prems have g: "g = (a, a + 1)"
    by (cases g) auto
  have adj: "adjacent gs" using Cons.prems(1) by (cases gs) auto
  have hd: "gs \<noteq> [] \<longrightarrow> fst (hd gs) = a + 1"
    using Cons.prems(1) g by (cases gs) auto
  have bin: "rebin_bin rms err freq a (a + 1) = Inr (freq ! nat a, rms ! nat a, \<bar>err ! nat a\<bar>)"
    using Cons.prems g by (intro rebin_bin_unit) auto
  have rest: "\<forall>g \<in> set gs. snd g - fst g = 1 \<and> snd g < int (length freq)
            \<and> snd g \<le> int (length rms) \<and> snd g \<le> int (length err)"
    using Cons.prems(4) by simp
  have a1: "0 \<le> a + 1" using Cons.prems(3) by simp
  have idx: "nat (a + 1) + k = nat a + Suc k" for k
    using Cons.prems(3) by linarith
  show ?case
    unfolding g
    by (simp add: bin Cons.IH[OF adj hd a1 rest] map_upt_Suc idx del: upt_Suc)
qed

lemma unit_groups_length:
  assumes "adjacent gs" "gs \<noteq> [] \<longrightarrow> fst (hd gs) = a"
    and "\<forall>g \<in> set gs. snd g - fst g = 1 \<and> snd g < L"
  shows "a + int (length gs) < L \<or> gs = []"
  using assms
proof (induction gs arbitrary: a)
  case Nil
  then show ?case by simp
next
  case (Cons g gs)
  from Cons.prems have g: "g = (a, a + 1)" and aL: "a + 1 < L"
    by (cases g; auto)+
  have adj: "adjacent gs" using Cons.prems(1) by (cases gs) auto
  have hd: "gs \<noteq> [] \<longrightarrow> fst (hd gs) = a + 1"
    using Cons.prems(1) g by (cases gs) auto
  from Cons.IH[OF adj hd] Cons.prems(3) have "a + 1 + int (length gs) < L \<or> gs = []"
    by simp
  then show ?case using aL by auto
qed


section \<open>Properties of power_of_two\<close>

lemma power_of_two_while_stop:
  "\<not> (x < n \<and> x < 2147483648) \<Longrightarrow> power_of_two_while x n = Some x"
  by (subst power_of_two_while.simps) auto

lemma pow2_less_2_31: "((2::int) ^ k < 2147483648) = (k < 31)"
proof -
  have "((2::int) ^ k < 2 ^ 31) = (k < 31)"
    by (rule power_strict_increasing_iff) simp
  moreover have "(2::int) ^ 31 = 2147483648" by simp
  ultimately show ?thesis by (simp only:)
qed

lemma power_of_two_while_step:
  "x < n \<Longrightarrow> x < 2147483648 \<Longrightarrow> power_of_two_while x n = power_of_two_while (x * 2) n"
  by (subst power_of_two_while.simps) simp

lemma power_of_two_while_result:
  assumes "k \<le> 31"
  shows "\<exists>j. k \<le> j \<and> j \<le> 31 \<and> power_of_two_while (2 ^ k) n = Some (2 ^ j)
           \<and> (n \<le> 2 ^ j \<or> j = 31) \<and> (k < j \<longrightarrow> 2 ^ (j - 1) < n)"
  using assms
proof (induction "31 - k" arbitrary: k rule: less_induct)
  case less
  show ?case
  proof (cases "(2::int) ^ k < n \<and> k < 31")
    case False
    then have "\<not> ((2::int) ^ k < n \<and> (2::int) ^ k < 2147483648)"
      by (simp add: pow2_less_2_31)
    then have "power_of_two_while (2 ^ k) n = Some (2 ^ k)"
      by (rule power_of_two_while_stop)
    then show ?thesis using False less.prems by (intro exI[of _ k]) auto
  next
    case True
    then have lt: "(2::int) ^ k < 2147483648"
      by (simp add: pow2_less_2_31)
    have step: "power_of_two_while (2 ^ k) n = power_of_two_while (2 ^ Suc k) n"
      using power_of_two_while_step[of "2 ^ k" n] True lt by (simp add: mult.commute)
    have "31 - Suc k < 31 - k" "Suc k \<le> 31" using True by linarith+
    from less.hyps[OF this] obtain j where j: "Suc k \<le> j" "j \<le> 31"
      "power_of_two_while (2 ^ Suc k) n = Some (2 ^ j)" "n \<le> 2 ^ j \<or> j = 31"
      "Suc k < j \<longrightarrow> 2 ^ (j - 1) < n"
      by blast
    have "2 ^ (j - 1) < n"
    proof (cases "Suc k < j")
      case True
      with j(5) show ?thesis by simp
    next
      case False
      with j(1) have "j = Suc k" by simp
      then show ?thesis using True by simp
    qed
    then show ?thesis using j step by (intro exI[of _ j]) auto
  qed
qed

lemma power_of_two_eq: "power_of_two n = Some (\<exists>k\<le>31. n = 2 ^ k)"
proof (cases "n = 1")
  case True
  then have "\<exists>k\<le>31::nat. n = 2 ^ k" by (intro exI[of _ 0]) simp
  then show ?thesis using True by (simp add: power_of_two_def)
next
  case False
  from power_of_two_while_result[of 1 n] obtain j where j: "1 \<le> j" "j \<le> 31"
    "power_of_two_while 2 n = Some (2 ^ j)" "n \<le> 2 ^ j \<or> j = 31" "1 < j \<longrightarrow> 2 ^ (j - 1) < n"
    by auto
  have "(n = 2 ^ j) = (\<exists>k\<le>31. n = 2 ^ k)"
  proof
    assume "n = 2 ^ j"
    then show "\<exists>k\<le>31. n = 2 ^ k" using j(2) by blast
  next
    assume "\<exists>k\<le>31. n = 2 ^ k"
    then obtain k where k: "k \<le> 31" "n = 2 ^ k" by blast
    with False have k1: "1 \<le> k" by (cases k) auto
    have "k \<le> j"
    proof (cases "j = 31")
      case True
      then show ?thesis using k by simp
    next
      case False
      with j(4) have "(2::int) ^ k \<le> 2 ^ j" using k by simp
      then show ?thesis by (simp add: power_increasing_iff)
    qed
    moreover have "j \<le> k"
    proof (cases "1 < j")
      case True
      with j(5) have "(2::int) ^ (j - 1) < 2 ^ k" using k by simp
      then have "j - 1 < k" by (simp add: power_strict_increasing_iff)
      then show ?thesis by simp
    next
      case False
      then show ?thesis using j(1) k1 by simp
    qed
    ultimately show "n = 2 ^ j" using k by simp
  qed
  then show ?thesis using False j(3) by (simp add: power_of_two_def)
qed

section \<open>Properties of the segment loop and the periodogram\<close>

lemma py_slice_window:
  assumes "0 \<le> i" "i \<le> j" "j \<le> int (length xs)"
  shows "length (py_slice xs i j) = nat (j - i)"
  using assms by (simp add: py_slice_def py_clip_def)

lemma segment_while_stop:
  "\<not> j < int (length rates) \<Longrightarrow>
     segment_while rates n_bins i j num_segments power_avg mean_rate_whole rate
       = Some (Inr (power_avg, mean_rate_whole, num_segments, rate))"
  by (subst segment_while.simps) simp

lemma segment_while_step:
  "j < int (length rates) \<Longrightarrow>
     segment_while rates n_bins i j num_segments power_avg mean_rate_whole rate
       = (case segment_power (py_slice rates i j) of
           Inl e \<Rightarrow> Some (Inl e)
         | Inr (mean_rate_segment, power_segment) \<Rightarrow>
             segment_while rates n_bins j (j + n_bins) (num_segments + 1)
               (map (\<lambda>(a, b). a + b) (zip power_segment power_avg))
               (mean_rate_whole + mean_rate_segment)
               (Some (py_slice rates i j)))"
  by (subst segment_while.simps) simp

lemma segment_while_count:
  assumes "0 < n_bins" "0 \<le> i" "j = i + n_bins"
  shows "\<exists>power_sum mean_rate_sum last_rate.
           segment_while rates n_bins i j num_segments power_avg mean_rate_whole rate
             = Some (Inr (power_sum, mean_rate_sum,
                   num_segments + (if j < int (length rates)
                                   then (int (length rates) - 1 - j) div n_bins + 1 else 0),
                   last_rate))"
  using assms
proof (induction "nat (int (length rates) - j)"
    arbitrary: i j num_segments power_avg mean_rate_whole rate rule: less_induct)
  case less
  show ?case
  proof (cases "j < int (length rates)")
    case False
    then show ?thesis by (simp add: segment_while_stop)
  next
    case True
    have "length (py_slice rates i j) = nat (j - i)"
      using less.prems True by (intro py_slice_window) auto
    then have "py_slice rates i j \<noteq> []" using less.prems by auto
    then obtain m p where sp: "segment_power (py_slice rates i j) = Inr (m, p)"
      by (auto simp: segment_power_def Let_def)
    have meas: "nat (int (length rates) - (j + n_bins)) < nat (int (length rates) - j)"
      using True less.prems(1) by linarith
    have j0: "0 \<le> j" using less.prems by simp
    from less.hyps[OF meas less.prems(1) j0 refl,
        of "num_segments + 1" "map (\<lambda>(a, b). a + b) (zip p power_avg)"
           "mean_rate_whole + m" "Some (py_slice rates i j)"]
    obtain ps ms lr where rec:
      "segment_while rates n_bins j (j + n_bins) (num_segments + 1)
          (map (\<lambda>(a, b). a + b) (zip p power_avg)) (mean_rate_whole + m)
          (Some (py_slice rates i j))
        = Some (Inr (ps, ms,
            num_segments + 1 + (if j + n_bins < int (length rates)
               then (int (length rates) - 1 - (j + n_bins)) div n_bins + 1 else 0), lr))"
      by blast
    have cnt: "(int (length rates) - 1 - j) div n_bins + 1
             = 1 + (if j + n_bins < int (length rates)
               then (int (length rates) - 1 - (j + n_bins)) div n_bins + 1 else 0)"
    proof (cases "j + n_bins < int (length rates)")
      case True
      define a where "a = int (length rates) - 1 - (j + n_bins)"
      have "int (length rates) - 1 - j = a + n_bins" by (simp add: a_def)
      moreover have "(a + n_bins) div n_bins = a div n_bins + 1"
        using less.prems(1) by simp
      ultimately have "(int (length rates) - 1 - j) div n_bins = a div n_bins + 1"
        by (simp only:)
      then show ?thesis using True by (simp add: a_def)
    next
      case False
      then have "(int (length rates) - 1 - j) div n_bins = 0"
        using \<open>j < int (length rates)\<close> less.prems(1) by (intro div_pos_pos_trivial) auto
      then show ?thesis using False by simp
    qed
    show ?thesis
      using True rec cnt by (simp add: segment_while_step sp)
  qed
qed

lemma sum_list_sub_const:
  "sum_list (map (\<lambda>x. x - m) xs) = sum_list xs - real (length xs) * (m::real)"
  by (induction xs) (simp_all add: algebra_simps)

lemma sum_list_of_real:
  "sum_list (map (\<lambda>x. complex_of_real x) xs) = complex_of_real (sum_list xs)"
  by (induction xs) simp_all

lemma fft_bin_0:
  assumes "x \<noteq> []"
  shows "fft x ! 0 = complex_of_real (sum_list x)"
proof -
  have "0 < length x" using assms by simp
  then have "fft x ! 0 = sum_list (map (\<lambda>n. complex_of_real (x ! n)) [0..<length x])"
    by (simp add: fft_def del: upt_Suc)
  also have "\<dots> = sum_list (map (\<lambda>v. complex_of_real v) (map (\<lambda>n. x ! n) [0..<length x]))"
    by (simp add: comp_def del: upt_Suc)
  also have "\<dots> = complex_of_real (sum_list x)"
    by (simp only: map_nth sum_list_of_real)
  finally show ?thesis .
qed

lemma after_loop_zero_segments:
  "after_loop num_seconds rebin_const dt n_bins (power_avg, mean_rate_whole, 0, rate)
     = Some (Inl ZeroDivisionError)"
  by (simp add: after_loop_def average_def)

section \<open>Properties of the frequency axis\<close>

lemma py_max_eq:
  assumes "v \<in> set xs" "\<forall>y \<in> set xs. y \<le> v"
  shows "py_max xs = Inr v"
proof (cases xs)
  case Nil
  with assms show ?thesis by simp
next
  case (Cons x ys)
  have "fold max ys x = Max (set (x # ys))"
    by (rule Max.set_eq_fold[symmetric])
  also have "\<dots> = v"
    using assms Cons by (intro Max_eqI) auto
  finally show ?thesis using Cons by (simp add: py_max_def)
qed

lemma py_list_index_append:
  "v \<notin> set as \<Longrightarrow> py_list_index (as @ v # bs) v = Inr (length as)"
  by (induction as) auto

lemma positive_freqs_fftfreq:
  assumes "even n" "2 \<le> n" "0 < (s::real)"
  shows "fftfreq n = Inr sample_freq \<Longrightarrow>
         positive_freqs (map (\<lambda>x. x * s) sample_freq) power_avg =
           Inr (map (\<lambda>k. real_of_int k * (1 / real n) * s) [0..int (n div 2) - 1],
                take (n div 2) power_avg)"
proof -
  assume ff: "fftfreq n = Inr sample_freq"
  define h where "h = int (n div 2)"
  define g where "g = (\<lambda>k. real_of_int k * (1 / real n) * s)"
  have h1: "1 \<le> h" using assms(1,2) unfolding h_def by presburger
  have half: "int ((n - Suc 0) div 2) = int (n div 2) - 1" using assms(1,2) by presburger
  have mono: "g a < g b" if "a < b" for a b
    using that assms(2,3) by (simp add: g_def divide_strict_right_mono)
  have mono_le: "g a \<le> g b" if "a \<le> b" for a b
    using that assms(2,3) by (simp add: g_def divide_right_mono)
  have inj: "g a = g b \<Longrightarrow> a = b" for a b
    using mono[of a b] mono[of b a] by (cases a b rule: linorder_cases) auto
  have sf: "map (\<lambda>x. x * s) sample_freq = map g ([0..h - 1] @ [- h..- 1])"
    using ff assms(2) by (auto simp: fftfreq_def g_def half h_def)
  have split: "[0..h - 1] = [0..h - 2] @ [h - 1]"
    using h1 upto_rec2[of 0 "h - 1"] by simp
  let ?A = "map g [0..h - 2]" and ?B = "map g [- h..- 1]"
  have freq: "map (\<lambda>x. x * s) sample_freq = ?A @ g (h - 1) # ?B"
    unfolding sf split by simp
  have notin: "g (h - 1) \<notin> set ?A"
  proof
    assume "g (h - 1) \<in> set ?A"
    then obtain k where "k \<in> set [0..h - 2]" "g (h - 1) = g k" by auto
    then show False using inj[of "h - 1" k] by auto
  qed
  have idx: "py_list_index (?A @ g (h - 1) # ?B) (g (h - 1)) = Inr (length ?A)"
    using notin by (rule py_list_index_append)
  have mx: "py_max (?A @ g (h - 1) # ?B) = Inr (g (h - 1))"
  proof (rule py_max_eq)
    show "g (h - 1) \<in> set (?A @ g (h - 1) # ?B)" by simp
    show "\<forall>y\<in>set (?A @ g (h - 1) # ?B). y \<le> g (h - 1)"
    proof
      fix y assume "y \<in> set (?A @ g (h - 1) # ?B)"
      then obtain k where "y = g k" "k \<le> h - 1"
        using h1 by auto
      then show "y \<le> g (h - 1)" using mono_le by simp
    qed
  qed
  have lenA: "Suc (length ?A) = n div 2"
    using h1 by (simp add: h_def)
  have "take (Suc (length ?A)) (?A @ g (h - 1) # ?B) = ?A @ [g (h - 1)]"
    by simp
  also have "\<dots> = map g [0..h - 1]" unfolding split by simp
  finally have tk: "take (n div 2) (?A @ g (h - 1) # ?B) = map g [0..h - 1]"
    unfolding lenA .
  have "positive_freqs (?A @ g (h - 1) # ?B) power_avg =
          Inr (take (length ?A + 1) (?A @ g (h - 1) # ?B), take (length ?A + 1) power_avg)"
    by (simp only: positive_freqs_def mx idx sum.case)
  also have "\<dots> = Inr (map g [0..h - 1], take (n div 2) power_avg)"
    unfolding Suc_eq_plus1[symmetric] lenA tk ..
  finally show ?thesis
    unfolding freq g_def h_def .
qed


section \<open>Claims about geometric_rebinning\<close>

text \<open>
  C3 (amended).  For every run with \<open>rebin_const \<ge> 1\<close> the loop returns; the groups
  \<open>(prev_m, current_m)\<close> it emits are exactly the ones whose triples make up the output,
  each group is non-empty (\<open>prev_m < current_m\<close>), each starts where the one before it
  ended, and when there is any group at all (\<open>1 < length_of_list\<close>) the first one is
  \<open>[0, 1)\<close>: it holds the DC bin 0, which is not skipped.
\<close>

theorem rebin_groups_adjacent:
  assumes "1 \<le> rebin_const"
  shows "\<exists>gs. rebin_groups rebin_const length_of_list = Some gs
           \<and> geometric_rebinning rms_power_avg rms_err_power freq rebin_const length_of_list
               = Some (emit_all rms_power_avg rms_err_power freq gs ([], [], []))
           \<and> adjacent gs \<and> (\<forall>g \<in> set gs. fst g < snd g)
           \<and> (1 < length_of_list \<longrightarrow> gs \<noteq> [] \<and> hd gs = (0, 1))"
proof -
  from rebin_groups_while_terminates[OF assms, of 1 0 1 length_of_list "[]"]
  obtain gs where gs: "rebin_groups rebin_const length_of_list = Some gs"
    and inc: "\<forall>g \<in> set gs. fst g < snd g"
    by (auto simp: rebin_groups_def)
  from rebin_groups_while_link[OF gs[unfolded rebin_groups_def], of rms_power_avg rms_err_power freq]
  have run: "geometric_rebinning rms_power_avg rms_err_power freq rebin_const length_of_list =
                Some (emit_all rms_power_avg rms_err_power freq gs ([], [], []))"
    and adj: "adjacent gs" and hd: "gs \<noteq> [] \<longrightarrow> hd gs = (0, 1)"
    by (auto simp: geometric_rebinning_def)
  from rebin_groups_while_below[OF gs[unfolded rebin_groups_def]]
  have "1 < length_of_list \<longrightarrow> gs \<noteq> []" by simp
  then show ?thesis using gs inc run adj hd by blast
qed

theorem rebin_groups_adjacent_witness:
  "(1::real) \<le> 3 / 2 \<and> rebin_groups (3 / 2) 9 = Some [(0, 1), (1, 3), (3, 5), (5, 8)]
   \<and> adjacent [(0, 1), (1, 3), (3, 5), (5, 8)]"
proof -
  have g: "rebin_groups (3 / 2) 9 = Some [(0, 1), (1, 3), (3, 5), (5, 8)]"
    by (simp add: rebin_groups_def rebin_groups_while.simps py_round_def)
  from rebin_groups_adjacent[of "3 / 2" 9 "[]" "[]" "[]"]
  have "adjacent [(0, 1), (1, 3), (3, 5), (5, 8)]"
    unfolding g by simp
  then show ?thesis using g by simp
qed

text \<open>
  C3 as stated fails: with four bins and \<open>rebin_const = 1.5\<close> the first group is
  \<open>[0, 1)\<close> and the first output triple is that of original index 0.
\<close>

theorem rebin_groups_first_counterexample:
  "rebin_groups (3 / 2) 4 = Some [(0, 1), (1, 3)]
   \<and> geometric_rebinning [7, 8, 9, 10] [0, 0, 0, 0] [0, 1, 2, 3] (3 / 2) 4
       = Some (Inr ([0, 2], [7, 17 / 2], [0, 0]))"
  by (simp add: rebin_groups_def rebin_groups_while.simps geometric_rebinning_def
      rebin_while.simps py_round_def rebin_bin_def py_get_def upto.simps)

text \<open>
  C4 (amended).  If every group of the run has \<open>current_m - prev_m = 1\<close> and the three
  lists have at least \<open>length_of_list\<close> entries, the run returns, and its \<open>k\<close>-th
  output triple (counting from 0) is \<open>(freq[k], rms_power_avg[k], |rms_err_power[k]|)\<close>
  for \<open>k = 0 .. n - 1\<close>, where \<open>n \<le> length_of_list - 1\<close> is the number of groups: a
  prefix of the unbinned spectrum that starts at the DC bin.
\<close>

theorem rebin_identity_when_unit_groups:
  assumes "rebin_groups rebin_const length_of_list = Some gs"
    and "\<forall>g \<in> set gs. snd g - fst g = 1"
    and "length_of_list \<le> int (length rms_power_avg)"
    and "length_of_list \<le> int (length rms_err_power)"
    and "length_of_list \<le> int (length freq)"
  shows "geometric_rebinning rms_power_avg rms_err_power freq rebin_const length_of_list =
           Some (Inr (map (\<lambda>k. freq ! k) [0..<length gs],
                      map (\<lambda>k. rms_power_avg ! k) [0..<length gs],
                      map (\<lambda>k. \<bar>rms_err_power ! k\<bar>) [0..<length gs]))
         \<and> length gs \<le> nat (length_of_list - 1)"
proof -
  from rebin_groups_while_link[OF assms(1)[unfolded rebin_groups_def], of rms_power_avg rms_err_power freq]
  have hd: "gs \<noteq> [] \<longrightarrow> fst (hd gs) = 0" and adj: "adjacent gs"
    and run: "geometric_rebinning rms_power_avg rms_err_power freq rebin_const length_of_list =
                Some (emit_all rms_power_avg rms_err_power freq gs ([], [], []))"
    by (auto simp: geometric_rebinning_def)
  from rebin_groups_while_below[OF assms(1)[unfolded rebin_groups_def]]
  have below: "\<forall>g \<in> set gs. snd g < length_of_list" by simp
  have all: "\<forall>g \<in> set gs. snd g - fst g = 1 \<and> snd g < int (length freq)
            \<and> snd g \<le> int (length rms_power_avg) \<and> snd g \<le> int (length rms_err_power)"
    using assms(2-5) below by fastforce
  have "emit_all rms_power_avg rms_err_power freq gs ([], [], []) =
          Inr (map (\<lambda>k. freq ! k) [0..<length gs],
                      map (\<lambda>k. rms_power_avg ! k) [0..<length gs],
                      map (\<lambda>k. \<bar>rms_err_power ! k\<bar>) [0..<length gs])"
    using emit_all_unit_groups[OF adj hd _ all, of "[]" "[]" "[]"] by simp
  moreover have "length gs \<le> nat (length_of_list - 1)"
    using unit_groups_length[OF adj hd, of length_of_list] assms(2) below by auto
  ultimately show ?thesis using run by simp
qed

theorem rebin_identity_when_unit_groups_witness:
  "rebin_groups 1 3 = Some [(0, 1), (1, 2)]
   \<and> geometric_rebinning [10, 20, 30] [1, - 2, 3] [0, 5, 7] 1 3 = Some (Inr ([0, 5], [10, 20], [1, 2]))"
proof -
  have g: "rebin_groups 1 3 = Some [(0, 1), (1, 2)]"
    by (simp add: rebin_groups_def rebin_groups_while.simps py_round_def)
  have u: "\<forall>g \<in> set [(0, 1), (1, 2) :: int \<times> int]. snd g - fst g = 1" by simp
  show ?thesis
    using rebin_identity_when_unit_groups[OF g u, of "[10, 20, 30]" "[1, - 2, 3]" "[0, 5, 7]"] g
    by (simp add: upt_rec)
qed

text \<open>
  C4 as stated fails: with \<open>rebin_const = 1\<close> and three bins every group has one entry,
  and the output holds original indices 0 and 1, not 1 and 2.
\<close>

theorem rebin_identity_counterexample:
  "geometric_rebinning [10, 20, 30] [1, 2, 3] [0, 5, 7] 1 3 = Some (Inr ([0, 5], [10, 20], [1, 2]))
   \<and> geometric_rebinning [10, 20, 30] [1, 2, 3] [0, 5, 7] 1 3 \<noteq> Some (Inr ([5, 7], [20, 30], [2, 3]))"
  by (simp add: geometric_rebinning_def rebin_while.simps py_round_def rebin_bin_def py_get_def upto.simps)

text \<open>
  C8.  For every \<open>rebin_const \<ge> 1\<close> and every \<open>length_of_list\<close> the loop returns:
  \<open>current_m\<close> grows in every pass (each group has \<open>prev_m < current_m\<close>), and a run
  that returns its three lists returns lists of at most \<open>length_of_list - 1\<close> entries.
\<close>

theorem geometric_rebinning_terminates:
  assumes "1 \<le> rebin_const"
  shows "\<exists>gs r. rebin_groups rebin_const length_of_list = Some gs
           \<and> (\<forall>g \<in> set gs. fst g < snd g)
           \<and> geometric_rebinning rms_power_avg rms_err_power freq rebin_const length_of_list = Some r
           \<and> (\<forall>fs ps es. r = Inr (fs, ps, es) \<longrightarrow>
                 length fs \<le> nat (length_of_list - 1) \<and> length ps \<le> nat (length_of_list - 1)
                 \<and> length es \<le> nat (length_of_list - 1))"
proof -
  from rebin_groups_while_terminates[OF assms, of 1 0 1 length_of_list "[]"]
  obtain gs where gs: "rebin_groups rebin_const length_of_list = Some gs"
    and inc: "\<forall>g \<in> set gs. fst g < snd g"
    and len: "length gs \<le> nat (length_of_list - 1)"
    by (auto simp: rebin_groups_def)
  from rebin_groups_while_link[OF gs[unfolded rebin_groups_def], of rms_power_avg rms_err_power freq]
  have run: "geometric_rebinning rms_power_avg rms_err_power freq rebin_const length_of_list =
                Some (emit_all rms_power_avg rms_err_power freq gs ([], [], []))"
    by (auto simp: geometric_rebinning_def)
  have "length fs \<le> nat (length_of_list - 1) \<and> length ps \<le> nat (length_of_list - 1)
            \<and> length es \<le> nat (length_of_list - 1)"
    if "emit_all rms_power_avg rms_err_power freq gs ([], [], []) = Inr (fs, ps, es)" for fs ps es
    using emit_all_length[OF that] len by simp
  then show ?thesis using gs inc run by blast
qed

theorem geometric_rebinning_terminates_witness:
  "(1::real) \<le> 3 / 2
   \<and> geometric_rebinning [1, 2, 3, 4, 5, 6] [0, 0, 0, 0, 0, 0] [0, 1, 2, 3, 4, 5] (3 / 2) 6
       = Some (Inr ([0, 2, 4], [1, 5 / 2, 9 / 2], [0, 0, 0]))
   \<and> length [0, 2, 4 :: real] \<le> nat (6 - 1)"
proof -
  have c: "(1::real) \<le> 3 / 2" by simp
  have run: "geometric_rebinning [1, 2, 3, 4, 5, 6] [0, 0, 0, 0, 0, 0] [0, 1, 2, 3, 4, 5] (3 / 2) 6
       = Some (Inr ([0, 2, 4], [1, 5 / 2, 9 / 2], [0, 0, 0]))"
    by (simp add: geometric_rebinning_def rebin_while.simps py_round_def rebin_bin_def py_get_def upto.simps)
  from geometric_rebinning_terminates[OF c, of 6 "[1, 2, 3, 4, 5, 6]" "[0, 0, 0, 0, 0, 0]" "[0, 1, 2, 3, 4, 5]"]
  have "length [0, 2, 4 :: real] \<le> nat (6 - 1)"
    unfolding run by blast
  then show ?thesis using c run by blast
qed

text \<open>
  C10 (amended).  For every \<open>rebin_const \<ge> 1\<close>, if the three lists have at least
  \<open>length_of_list\<close> entries then the function returns its three lists: no read is out of
  range and no division is by zero.
\<close>

theorem geometric_rebinning_in_bounds:
  assumes "1 \<le> rebin_const"
    and "length_of_list \<le> int (length rms_power_avg)"
    and "length_of_list \<le> int (length rms_err_power)"
    and "length_of_list \<le> int (length freq)"
  shows "\<exists>out. geometric_rebinning rms_power_avg rms_err_power freq rebin_const length_of_list
           = Some (Inr out)"
proof -
  from rebin_groups_while_terminates[OF assms(1), of 1 0 1 length_of_list "[]"]
  obtain gs where gs: "rebin_groups rebin_const length_of_list = Some gs"
    and rng: "\<forall>g \<in> set gs. 0 \<le> fst g \<and> fst g < snd g \<and> snd g < length_of_list"
    by (auto simp: rebin_groups_def)
  from rebin_groups_while_link[OF gs[unfolded rebin_groups_def], of rms_power_avg rms_err_power freq]
  have run: "geometric_rebinning rms_power_avg rms_err_power freq rebin_const length_of_list =
                Some (emit_all rms_power_avg rms_err_power freq gs ([], [], []))"
    by (auto simp: geometric_rebinning_def)
  have "\<forall>g \<in> set gs. 0 \<le> fst g \<and> fst g < snd g \<and> snd g < int (length freq)
              \<and> snd g \<le> int (length rms_power_avg) \<and> snd g \<le> int (length rms_err_power)"
    using rng assms(2-4) by fastforce
  from emit_all_in_range[OF this] show ?thesis
    unfolding run by (simp del: split_paired_Ex)
qed

theorem geometric_rebinning_in_bounds_witness:
  "(1::real) \<le> 2 \<and> (4::int) \<le> int (length [1, 2, 3, 4 :: real])
   \<and> (\<exists>out. geometric_rebinning [1, 2, 3, 4] [1, 2, 3, 4] [1, 2, 3, 4] 2 4 = Some (Inr out))"
  using geometric_rebinning_in_bounds[of 2 4 "[1, 2, 3, 4]" "[1, 2, 3, 4]" "[1, 2, 3, 4]"]
  by simp

text \<open>
  C10 as stated fails for some \<open>rebin_const\<close>: with \<open>rebin_const = -100\<close> and lists of
  length 2, the second pass reads \<open>freq[-99]\<close>.
\<close>

theorem geometric_rebinning_in_bounds_counterexample:
  "(2::int) \<le> int (length [10, 20 :: real]) \<and> (2::int) \<le> int (length [1, 2 :: real])
   \<and> (2::int) \<le> int (length [0, 1 :: real])
   \<and> geometric_rebinning [10, 20] [1, 2] [0, 1] (- 100) 2 = Some (Inl IndexError)"
  by (simp add: geometric_rebinning_def rebin_while.simps py_round_def rebin_bin_def py_get_def upto.simps)

section \<open>Claims about main\<close>

text \<open>
  C1 (amended).  For an even number \<open>n \<ge> 2\<close> of bins and \<open>int(1.0/dt) \<ge> 1\<close>, the cut
  keeps the bins \<open>0 .. n/2 - 1\<close> of both lists: the retained length is \<open>n/2\<close>, the
  frequencies are \<open>k * int(1.0/dt) / n\<close>, ascending and starting at 0.  The Nyquist bin,
  which \<open>fftfreq\<close> reports with a negative frequency, is not retained.
\<close>

theorem retained_bins:
  assumes "even n" and "2 \<le> n" and "1 \<le> py_int (1 / dt)"
    and "fftfreq n = Inr sample_freq"
  shows "\<exists>freq avg_power.
           positive_freqs (map (\<lambda>x. x * real_of_int (py_int (1 / dt))) sample_freq) power_avg
             = Inr (freq, avg_power)
           \<and> freq = map (\<lambda>k. real_of_int k * (1 / real n) * real_of_int (py_int (1 / dt)))
                       [0..int (n div 2) - 1]
           \<and> avg_power = take (n div 2) power_avg
           \<and> length freq = n div 2 \<and> sorted_wrt (<) freq \<and> freq ! 0 = 0"
proof -
  let ?s = "real_of_int (py_int (1 / dt))"
  let ?g = "\<lambda>k. real_of_int k * (1 / real n) * ?s"
  let ?freq = "map ?g [0..int (n div 2) - 1]"
  have s: "0 < ?s" using assms(3) by simp
  have h: "1 \<le> n div 2" using assms(1,2) by presburger
  have run: "positive_freqs (map (\<lambda>x. x * ?s) sample_freq) power_avg
               = Inr (?freq, take (n div 2) power_avg)"
    using positive_freqs_fftfreq[OF assms(1,2) s assms(4)] .
  have len: "length ?freq = n div 2" by simp
  have "sorted_wrt (\<lambda>a b. ?g a < ?g b) [0..int (n div 2) - 1]"
  proof (rule sorted_wrt_mono_rel[OF _ sorted_wrt_upto])
    fix a b :: int
    assume "a < b"
    then show "?g a < ?g b"
      using s assms(2) by (simp add: divide_strict_right_mono)
  qed
  then have srt: "sorted_wrt (<) ?freq" by (simp add: sorted_wrt_map)
  have "?freq ! 0 = ?g ([0..int (n div 2) - 1] ! 0)"
    using h by (intro nth_map) simp
  also have "\<dots> = 0" using h by simp
  finally have z: "?freq ! 0 = 0" .
  show ?thesis using run len srt z by blast
qed

theorem retained_bins_witness:
  "even (4::nat) \<and> (2::nat) \<le> 4 \<and> 1 \<le> py_int (1 / (1 / 2))
   \<and> fftfreq 4 = Inr [0, 1 / 4, - (1 / 2), - (1 / 4)]
   \<and> positive_freqs (map (\<lambda>x. x * real_of_int (py_int (1 / (1 / 2)))) [0, 1 / 4, - (1 / 2), - (1 / 4)])
        [10, 20, 30, 40] = Inr ([0, 1 / 2], [10, 20])"
proof -
  have a: "even (4::nat)" by simp
  have b: "(2::nat) \<le> 4" by simp
  have c: "1 \<le> py_int (1 / (1 / 2))" by (simp add: py_int_def)
  have d: "fftfreq 4 = Inr [0, 1 / 4, - (1 / 2), - (1 / 4)]"
    by (simp add: fftfreq_def upto.simps)
  from retained_bins[OF a b c d, of "[10, 20, 30, 40]"]
  have "positive_freqs (map (\<lambda>x. x * real_of_int (py_int (1 / (1 / 2)))) [0, 1 / 4, - (1 / 2), - (1 / 4)])
        [10, 20, 30, 40] = Inr ([0, 1 / 2], [10, 20])"
    by (simp add: py_int_def upto.simps)
  then show ?thesis using a b c d by blast
qed

text \<open>
  C1 as stated fails: with four bins the retained length is 2, not \<open>4/2 + 1 = 3\<close>.
\<close>

theorem retained_bins_counterexample:
  "fftfreq 4 = Inr [0, 1 / 4, - (1 / 2), - (1 / 4)]
   \<and> positive_freqs (map (\<lambda>x. x * real_of_int (py_int (1 / 1))) [0, 1 / 4, - (1 / 2), - (1 / 4)])
        [10, 20, 30, 40] = Inr ([0, 1 / 4], [10, 20])
   \<and> length [0, 1 / 4 :: real] \<noteq> 4 div 2 + 1"
  by (simp add: fftfreq_def upto.simps py_int_def positive_freqs_def py_max_def)

text \<open>
  C2.  The segment loop at a series of 8 samples and \<open>n_bins = 4\<close>: the loop runs
  while \<open>j < len\<close>, so it returns with \<open>num_segments = 1\<close>, where
  \<open>floor(8 / 4) = 2\<close>.
\<close>

theorem segment_count_exact_multiple:
  "(\<exists>power_sum mean_rate_sum last_rate.
      segment_while [1, 2, 3, 4, 5, 6, 7, 8] 4 0 4 0 [0, 0, 0, 0] 0 None
        = Some (Inr (power_sum, mean_rate_sum, 1, last_rate)))
   \<and> int (length [1, 2, 3, 4, 5, 6, 7, 8 :: real]) div 4 = 2"
  using segment_while_count[of 4 0 4 "[1, 2, 3, 4, 5, 6, 7, 8]" 0 "[0, 0, 0, 0]" 0 None]
  by simp

text \<open>
  C5 (amended).  When the checks pass, \<open>dt\<close> and \<open>n_bins\<close> are computed and the segment
  loop returns with \<open>num_segments = 0\<close>, \<open>main\<close> fails with \<open>ZeroDivisionError\<close>,
  raised by the division of the averaging step; no spectrum is produced.
\<close>

theorem main_zero_segments:
  assumes "idiot_checks num_seconds rebin_const = Some (Inr ())"
    and "time_step fits_data = Inr dt"
    and "bins_per_segment num_seconds dt = Inr n_bins"
    and "segment_while (map snd fits_data) n_bins 0 n_bins 0 (replicate (nat n_bins) 0) 0 None
           = Some (Inr (power_avg, mean_rate_whole, 0, rate))"
  shows "main fits_data num_seconds rebin_const = Some (Inl ZeroDivisionError)"
  using assms by (simp add: main_def after_loop_zero_segments)

theorem main_zero_segments_witness:
  "idiot_checks 2 1 = Some (Inr ()) \<and> time_step [(0, 5), (1, 7)] = Inr 1
   \<and> bins_per_segment 2 1 = Inr 2
   \<and> segment_while (map snd [(0, 5), (1, 7 :: real)]) 2 0 2 0 (replicate (nat 2) 0) 0 None
           = Some (Inr ([0, 0], 0, 0, None))
   \<and> main [(0, 5), (1, 7)] 2 1 = Some (Inl ZeroDivisionError)"
proof -
  have a: "idiot_checks 2 1 = Some (Inr ())"
    by (simp add: idiot_checks_def power_of_two_def power_of_two_while.simps)
  have b: "time_step [(0, 5), (1, 7)] = Inr 1" by (simp add: time_step_def py_get_def)
  have c: "bins_per_segment 2 1 = Inr 2" by (simp add: bins_per_segment_def py_int_def)
  have d: "segment_while (map snd [(0, 5), (1, 7 :: real)]) 2 0 2 0 (replicate (nat 2) 0) 0 None
           = Some (Inr ([0, 0], 0, 0, None))"
    by (simp add: segment_while.simps numeral_2_eq_2)
  from main_zero_segments[OF a b c d] a b c d show ?thesis by simp
qed

text \<open>
  C5 as stated fails: a series of three samples with \<open>n_bins = 4\<close> has no full segment,
  and the failure is \<open>ZeroDivisionError\<close>, not \<open>InsufficientDataError\<close>.
\<close>

theorem main_zero_segments_counterexample:
  "main [(0, 3), (1 / 2, 4), (1, 5)] 2 1 = Some (Inl ZeroDivisionError)
   \<and> main [(0, 3), (1 / 2, 4), (1, 5)] 2 1 \<noteq> Some (Inl InsufficientDataError)"
  by (simp add: main_def idiot_checks_def power_of_two_def power_of_two_while.simps
      time_step_def py_get_def bins_per_segment_def py_int_def segment_while.simps
      after_loop_def average_def)

text \<open>
  C6 (amended).  When \<open>1/dt\<close> is an integer (so that \<open>(1.0/dt) * num_seconds\<close>, the
  divisor the code uses, equals \<open>n_bins\<close>), \<open>num_seconds > 0\<close> and
  \<open>mean_rate_whole \<noteq> 0\<close>, the three normalisations are, for every bin,
  \<open>2 * avg_power * dt / n_bins / mean_rate_whole\<close>,
  \<open>2 * avg_power * dt / n_bins / mean_rate_whole^2 - 2 / mean_rate_whole\<close> and
  \<open>2 * err_power * dt / n_bins / mean_rate_whole^2\<close>.
\<close>

theorem normalizer_formulas:
  assumes "dt \<noteq> 0" and "real_of_int (py_int (1 / dt)) = 1 / dt"
    and "0 < num_seconds" and "mean_rate_whole \<noteq> 0"
    and "bins_per_segment num_seconds dt = Inr n_bins"
  shows "leahy_norm power_avg dt num_seconds mean_rate_whole =
           Inr (map (\<lambda>x. 2 * x * dt / real_of_int n_bins / mean_rate_whole) power_avg)
         \<and> rms_norm power_avg dt num_seconds mean_rate_whole =
           Inr (map (\<lambda>x. 2 * x * dt / real_of_int n_bins / mean_rate_whole ^ 2
                          - 2 / mean_rate_whole) power_avg)
         \<and> rms_err_norm err_power dt num_seconds mean_rate_whole =
           Inr (map (\<lambda>x. 2 * x * dt / real_of_int n_bins / mean_rate_whole ^ 2) err_power)"
proof -
  have n: "real_of_int n_bins = (1 / dt) * real_of_int num_seconds"
    using assms(1,2,5) by (auto simp: bins_per_segment_def)
  have nz: "(1 / dt) * real_of_int num_seconds \<noteq> 0"
    using assms(1,3) by simp
  show ?thesis
    unfolding leahy_norm_def rms_norm_def rms_err_norm_def n
    using assms(1,4) nz by simp
qed

theorem normalizer_formulas_witness:
  "(1 / 4 :: real) \<noteq> 0 \<and> real_of_int (py_int (1 / (1 / 4))) = 1 / (1 / 4) \<and> (0::int) < 2
   \<and> (3::real) \<noteq> 0 \<and> bins_per_segment 2 (1 / 4) = Inr 8
   \<and> leahy_norm [12, 24] (1 / 4) 2 3 = Inr [1 / 4, 1 / 2]
   \<and> rms_norm [12, 24] (1 / 4) 2 3 = Inr [1 / 12 - 2 / 3, 1 / 6 - 2 / 3]
   \<and> rms_err_norm [36] (1 / 4) 2 3 = Inr [1 / 4]"
proof -
  have a: "(1 / 4 :: real) \<noteq> 0" by simp
  have b: "real_of_int (py_int (1 / (1 / 4))) = 1 / (1 / 4)" by (simp add: py_int_def)
  have c: "(0::int) < 2" by simp
  have d: "(3::real) \<noteq> 0" by simp
  have e: "bins_per_segment 2 (1 / 4) = Inr 8" by (simp add: bins_per_segment_def py_int_def)
  show ?thesis
    using normalizer_formulas[OF a b c d e, of "[12, 24]" "[36]"] a b c d e by simp
qed

text \<open>
  C6 as stated fails: with \<open>dt = 0.4\<close> and \<open>num_seconds = 2\<close>, \<open>n_bins = 4\<close> but the
  divisor is \<open>(1/0.4) * 2 = 5\<close>, so the Leahy power of a bin with raw power 1 and mean
  rate 1 is \<open>4/25\<close>, not \<open>1/5\<close>.
\<close>

theorem normalizer_counterexample:
  "bins_per_segment 2 (2 / 5) = Inr 4
   \<and> leahy_norm [1] (2 / 5) 2 1 = Inr [4 / 25]
   \<and> [2 * 1 * (2 / 5) / real_of_int 4 / 1] \<noteq> [4 / 25 :: real]"
  by (simp add: bins_per_segment_def py_int_def leahy_norm_def)

text \<open>
  C7 (amended).  The checks made before any data is read are the three assertions: they
  pass exactly when \<open>num_seconds > 0\<close>, \<open>rebin_const \<ge> 1\<close> and \<open>num_seconds\<close> is a
  power of two up to \<open>2^31\<close>, and fail with \<open>AssertionError\<close> otherwise.  Neither
  \<open>dt\<close> nor \<open>n_bins\<close> is checked.
\<close>

theorem idiot_checks_eq:
  "idiot_checks num_seconds rebin_const =
     Some (if 0 < num_seconds \<and> 1 \<le> rebin_const \<and> (\<exists>k\<le>31. num_seconds = 2 ^ k)
           then Inr () else Inl AssertionError)"
  by (auto simp: idiot_checks_def power_of_two_eq)

theorem idiot_checks_eq_witness:
  "idiot_checks 8 (3 / 2) = Some (Inr ()) \<and> idiot_checks 6 (3 / 2) = Some (Inl AssertionError)
   \<and> idiot_checks 0 (3 / 2) = Some (Inl AssertionError)"
proof -
  have a: "\<exists>k\<le>31. (8::int) = 2 ^ k" by (intro exI[of _ 3]) simp
  have "idiot_checks 8 (3 / 2) = Some (Inr ())"
    using idiot_checks_eq[of 8 "3 / 2"] a by simp
  moreover have "idiot_checks 6 (3 / 2) = Some (Inl AssertionError)"
    by (simp add: idiot_checks_def power_of_two_def power_of_two_while.simps)
  moreover have "idiot_checks 0 (3 / 2) = Some (Inl AssertionError)"
    by (simp add: idiot_checks_def)
  ultimately show ?thesis by simp
qed

text \<open>
  C7 as stated fails: with \<open>num_seconds = 2\<close> the checks pass, and \<open>dt = 1/3\<close> then
  gives \<open>n_bins = 6\<close>, which is not a power of two, while \<open>dt = -1/2\<close> gives
  \<open>n_bins = -4\<close>; neither raises.
\<close>

theorem validation_counterexample:
  "idiot_checks 2 1 = Some (Inr ()) \<and> bins_per_segment 2 (1 / 3) = Inr 6
   \<and> power_of_two 6 = Some False \<and> bins_per_segment 2 (- 1 / 2) = Inr (- 4)"
  by (simp add: idiot_checks_def power_of_two_def power_of_two_while.simps
      bins_per_segment_def py_int_def)

text \<open>
  C9.  For every non-empty segment the periodogram has one power per sample and its DC
  power is exactly 0 in exact arithmetic: the mean-subtracted rates sum to zero.
\<close>

theorem segment_power_dc:
  assumes "rate \<noteq> []"
  shows "\<exists>mean_rate_segment power_segment.
           segment_power rate = Inr (mean_rate_segment, power_segment)
           \<and> length power_segment = length rate \<and> power_segment ! 0 = 0"
proof -
  let ?m = "sum_list rate / real (length rate)"
  let ?d = "map (\<lambda>x. x - ?m) rate"
  have len: "0 < length rate" using assms by simp
  have "sum_list ?d = 0"
    using len by (simp add: sum_list_sub_const)
  moreover have "?d \<noteq> []" using assms by simp
  ultimately have "fft ?d ! 0 = 0"
    by (simp add: fft_bin_0)
  moreover have "length (fft ?d) = length rate"
    by (simp add: fft_def)
  ultimately have "map (\<lambda>z. (cmod z) ^ 2) (fft ?d) ! 0 = 0"
    using len by simp
  then show ?thesis
    using assms by (simp add: segment_power_def Let_def fft_def)
qed

theorem segment_power_dc_witness:
  "[3, 5, 4, 8 :: real] \<noteq> []
   \<and> (\<exists>mean_rate_segment power_segment.
           segment_power [3, 5, 4, 8] = Inr (mean_rate_segment, power_segment)
           \<and> length power_segment = length [3, 5, 4, 8 :: real] \<and> power_segment ! 0 = 0)"
  using segment_power_dc[of "[3, 5, 4, 8]"] by simp

end
